theory Spec2Isabelle
  imports Complex_Main "HOL-Library.Char_ord" "HOL-Library.List_Lexorder" "HOL-Library.Multiset"
begin

section \<open>JavaScript values used by the dashboard\<close>

text \<open>
  The embedding follows \<^verbatim>\<open>src/App.jsx\<close>. Strings are byte lists (UTF-8); the patterns
  and separators the code matches on are ASCII, so matching on bytes agrees with matching on
  UTF-16 code units. A JavaScript number is one of NaN, the two infinities and a finite
  value; finite values are kept as exact rationals, so the rounding of IEEE doubles, their
  overflow to an infinity and their underflow to zero are not part of the model. The dictionaries of the code are maps from strings; the members a
  JavaScript object inherits (a key such as \<^verbatim>\<open>constructor\<close>) are not part of the model.
\<close>

datatype jsnum = NaN | PosInf | NegInf | Fin rat

text \<open>Truthiness of a possibly undefined string: undefined and the empty string are falsy.\<close>

fun truthy :: "string option \<Rightarrow> bool" where
  "truthy None = False"
| "truthy (Some s) = (s \<noteq> [])"

text \<open>\<^verbatim>\<open>a || b\<close> on possibly undefined strings.\<close>

definition js_or :: "string option \<Rightarrow> string option \<Rightarrow> string option" where
  "js_or a b = (if truthy a then a else b)"

subsection \<open>Regular-expression tests that occur in the source\<close>

text \<open>
  With the \<^verbatim>\<open>i\<close> flag and an ASCII pattern, two characters match when their ASCII
  upper-case forms agree (a non-ASCII character never canonicalises to an ASCII one).
\<close>

definition to_upper :: "char \<Rightarrow> char" where
  "to_upper c = (if CHR ''a'' \<le> c \<and> c \<le> CHR ''z'' then char_of (of_char c - (32::nat)) else c)"

text \<open>\<^verbatim>\<open>/^pat/i.test(s)\<close> for a literal pattern.\<close>

fun test_prefix_i :: "string \<Rightarrow> string \<Rightarrow> bool" where
  "test_prefix_i [] s = True"
| "test_prefix_i (p # ps) [] = False"
| "test_prefix_i (p # ps) (c # cs) =
     (if to_upper p = to_upper c then test_prefix_i ps cs else False)"

text \<open>\<^verbatim>\<open>/pat/i.test(s)\<close> for a literal pattern: some position of \<open>s\<close> starts a match.\<close>

fun test_substr_i :: "string \<Rightarrow> string \<Rightarrow> bool" where
  "test_substr_i pat [] = (pat = [])"
| "test_substr_i pat (c # cs) =
     (if test_prefix_i pat (c # cs) then True else test_substr_i pat cs)"

fun starts_with :: "string \<Rightarrow> string \<Rightarrow> bool" where
  "starts_with [] s = True"
| "starts_with (p # ps) [] = False"
| "starts_with (p # ps) (c # cs) = (if p = c then starts_with ps cs else False)"

text \<open>
  \<^verbatim>\<open>new RegExp(pat).test(s)\<close> for a pattern without regular-expression metacharacters
  (the region codes of the registry are digit strings): \<open>pat\<close> occurs in \<open>s\<close>.
\<close>

fun test_substr :: "string \<Rightarrow> string \<Rightarrow> bool" where
  "test_substr pat [] = (pat = [])"
| "test_substr pat (c # cs) = (if starts_with pat (c # cs) then True else test_substr pat cs)"

definition is_digit :: "char \<Rightarrow> bool" where
  "is_digit c = (CHR ''0'' \<le> c \<and> c \<le> CHR ''9'')"

subsection \<open>\<^verbatim>\<open>Number(string)\<close>\<close>

text \<open>
  The string-to-number conversion of the language: white space is trimmed, the empty string
  is 0, then a binary, octal or hexadecimal integer literal or a signed decimal literal
  (digits, optional fraction, optional exponent, or \<^verbatim>\<open>Infinity\<close>); anything else is NaN.
  White space is the ASCII part of the language's list; the other Unicode spaces are not
  trimmed here.
\<close>

definition is_ws :: "char \<Rightarrow> bool" where
  "is_ws c = (c \<in> {CHR '' '', CHR 0x09, CHR 0x0A, CHR 0x0B, CHR 0x0C, CHR 0x0D})"

definition trim :: "string \<Rightarrow> string" where
  "trim s = rev (dropWhile is_ws (rev (dropWhile is_ws s)))"

definition digit_val :: "char \<Rightarrow> nat" where
  "digit_val c =
     (if is_digit c then of_char c - 48
      else if CHR ''a'' \<le> c \<and> c \<le> CHR ''f'' then of_char c - 87
      else if CHR ''A'' \<le> c \<and> c \<le> CHR ''F'' then of_char c - 55
      else 0)"

definition is_digit_of :: "nat \<Rightarrow> char \<Rightarrow> bool" where
  "is_digit_of base c =
     ((is_digit c \<or> (CHR ''a'' \<le> c \<and> c \<le> CHR ''f'') \<or> (CHR ''A'' \<le> c \<and> c \<le> CHR ''F''))
      \<and> digit_val c < base)"

definition digits_val :: "nat \<Rightarrow> string \<Rightarrow> nat" where
  "digits_val base ds = foldl (\<lambda>a c. base * a + digit_val c) 0 ds"

text \<open>\<^verbatim>\<open>0b...\<close>, \<^verbatim>\<open>0o...\<close>, \<^verbatim>\<open>0x...\<close>: no sign, at least one digit.\<close>

definition non_decimal :: "string \<Rightarrow> rat option" where
  "non_decimal t =
     (case t of
        z # x # ds \<Rightarrow>
          (let base = (if to_upper x = CHR ''B'' then 2 else if to_upper x = CHR ''O'' then 8
                       else if to_upper x = CHR ''X'' then 16 else (0::nat))
           in if z = CHR ''0'' \<and> base \<noteq> 0 \<and> ds \<noteq> [] \<and> list_all (is_digit_of base) ds
              then Some (of_nat (digits_val base ds)) else None)
      | _ \<Rightarrow> None)"

text \<open>The exponent part: \<^verbatim>\<open>e\<close> or \<^verbatim>\<open>E\<close>, an optional sign, at least one digit.\<close>

definition exponent_part :: "string \<Rightarrow> int option" where
  "exponent_part r =
     (case r of
        [] \<Rightarrow> Some 0
      | e # r1 \<Rightarrow>
          if to_upper e \<noteq> CHR ''E'' then None
          else (let neg = (r1 \<noteq> [] \<and> hd r1 = CHR ''-'');
                    ds = (if r1 \<noteq> [] \<and> (hd r1 = CHR ''-'' \<or> hd r1 = CHR ''+'') then tl r1 else r1)
                in if ds \<noteq> [] \<and> list_all is_digit ds
                   then Some (if neg then - int (digits_val 10 ds) else int (digits_val 10 ds))
                   else None))"

definition unsigned_decimal :: "string \<Rightarrow> rat option" where
  "unsigned_decimal t =
     (let ip = takeWhile is_digit t; r1 = dropWhile is_digit t;
          dot = (r1 \<noteq> [] \<and> hd r1 = CHR ''.'');
          fp = (if dot then takeWhile is_digit (tl r1) else []);
          r2 = (if dot then dropWhile is_digit (tl r1) else r1)
      in if ip = [] \<and> fp = [] then None
         else (case exponent_part r2 of
                 None \<Rightarrow> None
               | Some e \<Rightarrow>
                   Some (of_nat (digits_val 10 (ip @ fp)) / 10 ^ length fp
                         * (if 0 \<le> e then 10 ^ nat e else 1 / 10 ^ nat (- e)))))"

definition signed_decimal :: "string \<Rightarrow> jsnum" where
  "signed_decimal t =
     (let neg = (t \<noteq> [] \<and> hd t = CHR ''-'');
          u = (if t \<noteq> [] \<and> (hd t = CHR ''-'' \<or> hd t = CHR ''+'') then tl t else t)
      in if u = ''Infinity'' then (if neg then NegInf else PosInf)
         else (case unsigned_decimal u of
                 None \<Rightarrow> NaN
               | Some r \<Rightarrow> Fin (if neg then - r else r)))"

definition Number :: "string \<Rightarrow> jsnum" where
  "Number s =
     (let t = trim s
      in if t = [] then Fin 0
         else (case non_decimal t of Some r \<Rightarrow> Fin r | None \<Rightarrow> signed_decimal t))"

text \<open>\<^verbatim>\<open>100 - x\<close> on numbers, exact on finite values.\<close>

fun hundred_minus :: "jsnum \<Rightarrow> jsnum" where
  "hundred_minus NaN = NaN"
| "hundred_minus PosInf = NegInf"
| "hundred_minus NegInf = PosInf"
| "hundred_minus (Fin r) = Fin (100 - r)"

text \<open>\<^verbatim>\<open>xs[0]\<close>: undefined on the empty array.\<close>

fun first :: "'a list \<Rightarrow> 'a option" where
  "first [] = None"
| "first (x # xs) = Some x"

text \<open>\<^verbatim>\<open>xs.slice(-n)\<close>: the last \<open>n\<close> elements, all of them when there are fewer.\<close>

definition slice_last :: "nat \<Rightarrow> 'a list \<Rightarrow> 'a list" where
  "slice_last n xs = drop (length xs - n) xs"

text \<open>\<^verbatim>\<open>a || b\<close> where \<open>b\<close> is a defined string.\<close>

fun or_else :: "string option \<Rightarrow> string \<Rightarrow> string" where
  "or_else None b = b"
| "or_else (Some a) b = (if a \<noteq> [] then a else b)"

section \<open>Registries\<close>

text \<open>A candidate series record of the provider's search answer.\<close>

record candidate =
  id' :: string
  title :: string

text \<open>The context handed to a pick function: \<^verbatim>\<open>{ cbsa, msaName }\<close>.\<close>

record ctx =
  ctx_cbsa :: string
  ctx_msaName :: string

text \<open>A raw observation of the provider and a cleaned one.\<close>

record raw_observation =
  raw_date :: string
  raw_value :: string

record observation =
  date :: string
  val :: jsnum

text \<open>
  An entry of \<^verbatim>\<open>INDICATORS\<close>. The display formatter is left out: it belongs to
  the presentation. Optional members are options; an absent \<^verbatim>\<open>needsDiscovery\<close> is falsy.
\<close>

record indicator =
  label :: string
  seriesIdForCbsa :: "string \<Rightarrow> string"
  transformValue :: "(jsnum \<Rightarrow> jsnum) option"
  needsDiscovery :: bool
  searchText :: "(string \<Rightarrow> string) option"
  pickSeries :: "(candidate list \<Rightarrow> ctx \<Rightarrow> string option) option"

datatype indicator_key = EMP_RATE | HOUSING_HPI | GDP

fun key_name :: "indicator_key \<Rightarrow> string" where
  "key_name EMP_RATE = ''EMP_RATE''"
| "key_name HOUSING_HPI = ''HOUSING_HPI''"
| "key_name GDP = ''GDP''"

definition pickSeries_EMP_RATE :: "candidate list \<Rightarrow> ctx \<Rightarrow> string option" where
  "pickSeries_EMP_RATE items c =
     (let candidates = filter (\<lambda>s. test_prefix_i ''LAUMT'' (id' s)
                                    \<and> test_substr_i ''Unemployment Rate'' (title s)) items
      in js_or (map_option id' (first candidates)) (map_option id' (first items)))"

text \<open>The filter callback of the housing pick function.\<close>

definition is_listing_count :: "candidate \<Rightarrow> bool" where
  "is_listing_count s =
     (test_prefix_i ''ACTLISCOU'' (id' s) \<and> test_substr_i ''Active Listing Count'' (title s))"

definition pickSeries_HOUSING_HPI :: "candidate list \<Rightarrow> ctx \<Rightarrow> string option" where
  "pickSeries_HOUSING_HPI items c =
     (let candidates = filter is_listing_count items;
          byCbsa = find (\<lambda>s. test_substr (ctx_cbsa c) (id' s)) candidates
      in case byCbsa of
           Some s \<Rightarrow> Some (id' s)
         | None \<Rightarrow>
             (case first candidates of
                Some s \<Rightarrow> Some (id' s)
              | None \<Rightarrow> map_option id' (first items)))"

fun INDICATORS :: "indicator_key \<Rightarrow> indicator" where
  "INDICATORS EMP_RATE =
     \<lparr>label = ''Employment Rate'',
      seriesIdForCbsa = (\<lambda>c. ''LAUMT12'' @ c @ ''0000000003''),
      transformValue = Some hundred_minus,
      needsDiscovery = True,
      searchText = Some (\<lambda>n. n @ '' Unemployment Rate''),
      pickSeries = Some pickSeries_EMP_RATE\<rparr>"
| "INDICATORS HOUSING_HPI =
     \<lparr>label = ''Housing Inventory: Active Listing Count'',
      seriesIdForCbsa = (\<lambda>c. ''ACTLISCOU'' @ c),
      transformValue = None,
      needsDiscovery = True,
      searchText = Some (\<lambda>n. ''Housing Inventory: Active Listing Count in '' @ n),
      pickSeries = Some pickSeries_HOUSING_HPI\<rparr>"
| "INDICATORS GDP =
     \<lparr>label = ''GDP'',
      seriesIdForCbsa = (\<lambda>c. ''RGMP'' @ c),
      transformValue = None,
      needsDiscovery = False,
      searchText = None,
      pickSeries = None\<rparr>"

text \<open>The key \<^verbatim>\<open>`${indicatorKey}|${cbsa}`\<close> of the override table and of the resolved-id map.\<close>

definition mk_key :: "indicator_key \<Rightarrow> string \<Rightarrow> string" where
  "mk_key k c = key_name k @ ''|'' @ c"

definition SERIES_OVERRIDES :: "string \<rightharpoonup> string" where
  "SERIES_OVERRIDES =
     map_of [(''HOUSING_HPI|33100'', ''ACTLISCOU33100''),
             (''HOUSING_HPI|45300'', ''ACTLISCOU45300''),
             (''HOUSING_HPI|36740'', ''ACTLISCOU36740'')]"

record msa =
  name :: string
  msa_cbsa :: string

text \<open>The en dash of the region names, as its UTF-8 bytes.\<close>

definition en_dash :: string where
  "en_dash = [CHR 0xE2, CHR 0x80, CHR 0x93]"

definition MSAS :: "msa list" where
  "MSAS =
     [\<lparr>name = ''Miami'' @ en_dash @ ''Fort Lauderdale'' @ en_dash @ ''West Palm Beach, FL'',
       msa_cbsa = ''33100''\<rparr>,
      \<lparr>name = ''Tampa'' @ en_dash @ ''St. Petersburg'' @ en_dash @ ''Clearwater, FL'',
       msa_cbsa = ''45300''\<rparr>,
      \<lparr>name = ''Orlando'' @ en_dash @ ''Kissimmee'' @ en_dash @ ''Sanford, FL'',
       msa_cbsa = ''36740''\<rparr>,
      \<lparr>name = ''Atlanta'' @ en_dash @ ''Sandy Springs'' @ en_dash @ ''Roswell, GA'',
       msa_cbsa = ''12060''\<rparr>]"

section \<open>Application state and the planned series\<close>

record app_state =
  indicatorKey :: indicator_key
  selectedMsas :: "string list"
  seriesCache :: "string \<rightharpoonup> observation list"
  seriesIdMap :: "string \<rightharpoonup> string"
  loading :: bool
  error :: string

definition initial_state :: app_state where
  "initial_state =
     \<lparr>indicatorKey = EMP_RATE, selectedMsas = [''33100'', ''45300''],
      seriesCache = Map.empty, seriesIdMap = Map.empty, loading = False, error = []\<rparr>"

record planned =
  cbsa :: string
  msaName :: string
  seriesId :: string

text \<open>\<^verbatim>\<open>MSAS.find((m) => m.cbsa === cbsa)?.name || cbsa\<close>.\<close>

definition msaName_of :: "string \<Rightarrow> string" where
  "msaName_of c = or_else (map_option name (find (\<lambda>m. msa_cbsa m = c) MSAS)) c"

text \<open>
  \<^verbatim>\<open>plannedSeries\<close>: per selected region, the static override, else the discovered id,
  else the indicator's pattern.
\<close>

definition plannedSeries :: "app_state \<Rightarrow> planned list" where
  "plannedSeries s =
     map (\<lambda>c.
            let key = mk_key (indicatorKey s) c;
                staticOverride = SERIES_OVERRIDES key;
                dynamicOverride = seriesIdMap s key
            in \<lparr>cbsa = c,
                msaName = msaName_of c,
                seriesId = or_else staticOverride
                             (or_else dynamicOverride
                                (seriesIdForCbsa (INDICATORS (indicatorKey s)) c))\<rparr>)
         (selectedMsas s)"

section \<open>Cleaning of fetched observations\<close>

text \<open>
  The chain \<^verbatim>\<open>filter\<close>, \<^verbatim>\<open>map\<close>, \<^verbatim>\<open>sort\<close> of the fetch; \<open>clean_record\<close> is the
  callback of its \<^verbatim>\<open>map\<close>. The comparison of two
  dates is the order of their bytes, which is what \<^verbatim>\<open>localeCompare\<close> gives on the
  fixed-width ISO dates of the provider; the sort is stable, as the language's is.
\<close>

definition clean_record :: "indicator \<Rightarrow> raw_observation \<Rightarrow> observation" where
  "clean_record ind d =
     (let raw = Number (raw_value d);
          v = (case transformValue ind of Some f \<Rightarrow> f raw | None \<Rightarrow> raw)
      in \<lparr>date = raw_date d, val = v\<rparr>)"

definition cleaned :: "indicator \<Rightarrow> raw_observation list \<Rightarrow> observation list" where
  "cleaned ind obs =
     sort_key date (map (clean_record ind) (filter (\<lambda>d. raw_value d \<noteq> ''.'') obs))"

section \<open>The provider and the fetch effect\<close>

text \<open>
  An answer of the provider to one request: the request is rejected (no answer at all),
  answered with a non-success status, or answered with a body. An absent or empty
  \<^verbatim>\<open>seriess\<close> or \<^verbatim>\<open>observations\<close> member of the body is the empty list.
\<close>

datatype 'a response = Rejected | NotOk nat | Ok 'a

text \<open>The search answers by query text and the observations answers by series id.\<close>

record provider =
  search :: "string \<Rightarrow> candidate list response"
  observations :: "string \<Rightarrow> raw_observation list response"

datatype request = Search string | Observations string

datatype exn = NetworkError | HttpError nat | TypeError

text \<open>
  \<^verbatim>\<open>Promise.all\<close> over the results of the callbacks: the array of the values, or the
  rejection when one of them throws.
\<close>

fun promise_all :: "(exn + 'a) list \<Rightarrow> exn + 'a list" where
  "promise_all [] = Inr []"
| "promise_all (Inl e # rs) = Inl e"
| "promise_all (Inr v # rs) = (case promise_all rs of Inl e \<Rightarrow> Inl e | Inr vs \<Rightarrow> Inr (v # vs))"

text \<open>
  The discovery callback for one planned series: the search request it issues, if any,
  and its result (\<open>None\<close> is the callback's \<^verbatim>\<open>null\<close>).
\<close>

definition discover ::
  "provider \<Rightarrow> app_state \<Rightarrow> planned \<Rightarrow> request list \<times> (exn + (string \<times> string) option)" where
  "discover prov s p =
     (let indicator = INDICATORS (indicatorKey s);
          key = mk_key (indicatorKey s) (cbsa p)
      in if truthy (seriesIdMap s key) then ([], Inr None)
         else (case searchText indicator of
                 None \<Rightarrow> ([], Inl TypeError)
               | Some text_of \<Rightarrow>
                   (let q = text_of (msaName p)
                    in ([Search q],
                        (case search prov q of
                           Rejected \<Rightarrow> Inl NetworkError
                         | NotOk st \<Rightarrow> Inr None
                         | Ok items \<Rightarrow>
                             if items = [] then Inr None
                             else (let picked =
                                         (case pickSeries indicator of
                                            Some pick \<Rightarrow>
                                              pick items \<lparr>ctx_cbsa = cbsa p, ctx_msaName = msaName p\<rparr>
                                          | None \<Rightarrow> map_option id' (first items))
                                   in case picked of
                                        None \<Rightarrow> Inr None
                                      | Some v \<Rightarrow> if v \<noteq> [] then Inr (Some (key, v)) else Inr None))))))"

text \<open>The observations callback for one missing series.\<close>

definition fetch_one :: "provider \<Rightarrow> indicator \<Rightarrow> planned \<Rightarrow> exn + (string \<times> observation list)" where
  "fetch_one prov indicator p =
     (case observations prov (seriesId p) of
        Rejected \<Rightarrow> Inl NetworkError
      | NotOk st \<Rightarrow> Inl (HttpError st)
      | Ok obs \<Rightarrow> Inr (seriesId p, cleaned indicator obs))"

text \<open>\<^verbatim>\<open>entries.forEach(([k, v]) => { next[k] = v; })\<close> on a copy of the previous map.\<close>

definition assign_all :: "('k \<rightharpoonup> 'v) \<Rightarrow> ('k \<times> 'v) list \<Rightarrow> ('k \<rightharpoonup> 'v)" where
  "assign_all prev entries = foldl (\<lambda>next (k, v). next(k \<mapsto> v)) prev entries"

text \<open>The series of the plan that the cache does not hold.\<close>

definition missing :: "app_state \<Rightarrow> planned list" where
  "missing s = filter (\<lambda>p. seriesCache s (seriesId p) = None) (plannedSeries s)"

text \<open>
  One run of \<^verbatim>\<open>fetchMissing\<close> on the state the effect closed over, with no other state
  change in between: the state after it and the requests it issued, in order. The
  \<^verbatim>\<open>aborted\<close> flag of the source is never set, so it is \<open>False\<close> throughout. The
  \<^verbatim>\<open>catch\<close> branch stores the empty string as the error and \<^verbatim>\<open>finally\<close> clears
  \<^verbatim>\<open>loading\<close>.
\<close>

definition fetchMissing :: "provider \<Rightarrow> app_state \<Rightarrow> app_state \<times> request list" where
  "fetchMissing prov s =
     (let indicator = INDICATORS (indicatorKey s);
          s0 = s\<lparr>error := [], loading := True\<rparr>;
          found = (if needsDiscovery indicator then map (discover prov s) (plannedSeries s) else []);
          searches = concat (map fst found)
      in case promise_all (map snd found) of
           Inl e \<Rightarrow> (s0\<lparr>error := [], loading := False\<rparr>, searches)
         | Inr discoveries \<Rightarrow>
             (let entries = concat (map (\<lambda>d. case d of None \<Rightarrow> [] | Some kv \<Rightarrow> [kv]) discoveries);
                  s1 = (if entries \<noteq> []
                        then s0\<lparr>seriesIdMap := assign_all (seriesIdMap s0) entries\<rparr> else s0)
              in if missing s = [] then (s1\<lparr>loading := False\<rparr>, searches)
                 else (let fetches = map (Observations \<circ> seriesId) (missing s)
                       in case promise_all (map (fetch_one prov indicator) (missing s)) of
                            Inl e \<Rightarrow> (s1\<lparr>error := [], loading := False\<rparr>, searches @ fetches)
                          | Inr results \<Rightarrow>
                              (s1\<lparr>seriesCache := assign_all (seriesCache s1) results,
                                  loading := False\<rparr>,
                               searches @ fetches))))"

text \<open>The effect body: \<^verbatim>\<open>if (apiKey) fetchMissing()\<close>.\<close>

definition run_effect :: "string option \<Rightarrow> provider \<Rightarrow> app_state \<Rightarrow> app_state \<times> request list" where
  "run_effect apiKey prov s = (if truthy apiKey then fetchMissing prov s else (s, []))"

section \<open>Event handlers\<close>

definition onSelectIndicator :: "indicator_key \<Rightarrow> app_state \<Rightarrow> app_state" where
  "onSelectIndicator k s = s\<lparr>seriesCache := Map.empty, seriesIdMap := Map.empty, indicatorKey := k\<rparr>"

definition onToggleMsa :: "string \<Rightarrow> app_state \<Rightarrow> app_state" where
  "onToggleMsa c s =
     s\<lparr>selectedMsas :=
         (if c \<in> set (selectedMsas s) then filter (\<lambda>i. i \<noteq> c) (selectedMsas s)
          else selectedMsas s @ [c])\<rparr>"

definition onClearAll :: "app_state \<Rightarrow> app_state" where
  "onClearAll s = s\<lparr>selectedMsas := []\<rparr>"

section \<open>Sessions, with runs that overlap\<close>

text \<open>
  A run computes from the state it closed over and stores through updater functions
  (\<^verbatim>\<open>setSeriesIdMap((prev) => ...)\<close>, \<^verbatim>\<open>setSeriesCache((prev) => ...)\<close>), which act on
  the state at the time of the update. \<open>batch_entries\<close> and \<open>batch_results\<close> are what the
  two \<^verbatim>\<open>Promise.all\<close> of a run resolve to on the state \<open>c\<close> it closed over;
  \<open>store_entries\<close> and \<open>store_results\<close> are the two updaters on the current state.
\<close>

definition batch_entries :: "provider \<Rightarrow> app_state \<Rightarrow> exn + (string \<times> string) list" where
  "batch_entries prov c =
     (case promise_all
             (map snd (if needsDiscovery (INDICATORS (indicatorKey c))
                       then map (discover prov c) (plannedSeries c) else [])) of
        Inl e \<Rightarrow> Inl e
      | Inr discoveries \<Rightarrow>
          Inr (concat (map (\<lambda>d. case d of None \<Rightarrow> [] | Some kv \<Rightarrow> [kv]) discoveries)))"

definition batch_results :: "provider \<Rightarrow> app_state \<Rightarrow> exn + (string \<times> observation list) list" where
  "batch_results prov c =
     promise_all (map (fetch_one prov (INDICATORS (indicatorKey c))) (missing c))"

definition store_entries :: "(string \<times> string) list \<Rightarrow> app_state \<Rightarrow> app_state" where
  "store_entries entries cur =
     (if entries \<noteq> [] then cur\<lparr>seriesIdMap := assign_all (seriesIdMap cur) entries\<rparr> else cur)"

definition store_results :: "(string \<times> observation list) list \<Rightarrow> app_state \<Rightarrow> app_state" where
  "store_results results cur = cur\<lparr>seriesCache := assign_all (seriesCache cur) results\<rparr>"

text \<open>
  The states of a session, with the providers whose answers it has received. A run either
  happens in one piece (\<open>run\<close>), or its updates land on a later state \<open>cur\<close> than the state
  \<open>c\<close> it closed over (\<open>entries_stored\<close>, \<open>results_stored\<close>, and \<open>flags\<close> for its error and
  loading updates). The closed-over state is any state of a session: the order of the runs
  is not kept, which only adds states.
\<close>

inductive session :: "provider list \<Rightarrow> app_state \<Rightarrow> bool" where
  start: "session [] initial_state"
| select_indicator: "session ps s \<Longrightarrow> session ps (onSelectIndicator k s)"
| toggle_msa: "session ps s \<Longrightarrow> session ps (onToggleMsa c s)"
| clear_all: "session ps s \<Longrightarrow> session ps (onClearAll s)"
| run: "session ps s \<Longrightarrow> session (prov # ps) (fst (run_effect apiKey prov s))"
| entries_stored:
    "session ps cur \<Longrightarrow> session qs c \<Longrightarrow> batch_entries prov c = Inr entries
     \<Longrightarrow> session (prov # ps) (store_entries entries cur)"
| results_stored:
    "session ps cur \<Longrightarrow> session qs c \<Longrightarrow> batch_entries prov c = Inr entries
     \<Longrightarrow> batch_results prov c = Inr results
     \<Longrightarrow> session (prov # ps) (store_results results cur)"
| flags: "session ps s \<Longrightarrow> session ps (s\<lparr>error := [], loading := b\<rparr>)"

section \<open>Alignment\<close>

text \<open>\<^verbatim>\<open>seriesCache[seriesId] || []\<close>.\<close>

definition rows_of :: "(string \<rightharpoonup> observation list) \<Rightarrow> string \<Rightarrow> observation list" where
  "rows_of cache sid = (case cache sid of None \<Rightarrow> [] | Some rows \<Rightarrow> rows)"

text \<open>\<^verbatim>\<open>dateSet.add(d)\<close>: a set keeps its elements in the order of their first insertion.\<close>

definition set_add :: "string list \<Rightarrow> string \<Rightarrow> string list" where
  "set_add dateSet d = (if d \<in> set dateSet then dateSet else dateSet @ [d])"

definition unifiedDates :: "(string \<rightharpoonup> observation list) \<Rightarrow> planned list \<Rightarrow> string list" where
  "unifiedDates cache plan =
     sort (foldl (\<lambda>dateSet p. foldl (\<lambda>ds r. set_add ds (date r)) dateSet (rows_of cache (seriesId p)))
             [] plan)"

text \<open>\<^verbatim>\<open>new Map(rows.map((r) => [r.date, r.value]))\<close>: a later row of a date replaces an earlier one.\<close>

definition date_map :: "observation list \<Rightarrow> (string \<rightharpoonup> jsnum)" where
  "date_map rows = foldl (\<lambda>m r. m(date r \<mapsto> val r)) Map.empty rows"

text \<open>A row of the pivoted table; \<open>None\<close> in \<open>vals\<close> is the source's \<^verbatim>\<open>null\<close>.\<close>

record pivot_row =
  row_date :: string
  vals :: "jsnum option list"

datatype table = Single "observation list" | Multi "string list" "pivot_row list"

fun mode :: "table \<Rightarrow> string" where
  "mode (Single rows) = ''single''"
| "mode (Multi dates rows) = ''multi''"

definition tableData :: "(string \<rightharpoonup> observation list) \<Rightarrow> planned list \<Rightarrow> table" where
  "tableData cache plan =
     (if length plan = 1 then Single (rows_of cache (seriesId (hd plan)))
      else (let lastDates = slice_last 12 (unifiedDates cache plan);
                seriesMaps = map (\<lambda>p. date_map (rows_of cache (seriesId p))) plan
            in Multi lastDates
                 (map (\<lambda>d. \<lparr>row_date = d,
                             vals = map (\<lambda>idx. (seriesMaps ! idx) d) [0..<length plan]\<rparr>)
                    lastDates)))"

text \<open>The body rows of the single-region table: \<^verbatim>\<open>tableData.rows.slice(-50)\<close>.\<close>

definition shown_rows :: "observation list \<Rightarrow> observation list" where
  "shown_rows rows = slice_last 50 rows"

section \<open>Concrete inputs\<close>

text \<open>The provider answer of the cleaning scenario: one value and one missing-data marker.\<close>

definition example_raw :: "raw_observation list" where
  "example_raw =
     [\<lparr>raw_date = ''2024-01-01'', raw_value = ''100''\<rparr>,
      \<lparr>raw_date = ''2024-02-01'', raw_value = ''.''\<rparr>]"

text \<open>States of a session: the GDP and the housing indicator with the two default regions,
  and the employment indicator with Atlanta alone.\<close>

definition gdp_state :: app_state where
  "gdp_state = onSelectIndicator GDP initial_state"

definition housing_state :: app_state where
  "housing_state = onSelectIndicator HOUSING_HPI initial_state"

definition atlanta_state :: app_state where
  "atlanta_state = initial_state\<lparr>selectedMsas := [''12060'']\<rparr>"

definition one_row :: "raw_observation list" where
  "one_row = [\<lparr>raw_date = ''2024-01-01'', raw_value = ''5.0''\<rparr>]"

text \<open>Providers: one that finds no candidate and answers every observations request, one
  that fails the observations of a single series, one whose answer repeats a date.\<close>

definition prov_ok :: provider where
  "prov_ok = \<lparr>search = (\<lambda>q. Ok []), observations = (\<lambda>sid. Ok one_row)\<rparr>"

definition prov_partial :: provider where
  "prov_partial =
     \<lparr>search = (\<lambda>q. Ok []),
      observations = (\<lambda>sid. if sid = ''RGMP33100'' then NotOk 500 else Ok one_row)\<rparr>"

definition prov_dup :: provider where
  "prov_dup =
     \<lparr>search = (\<lambda>q. Ok []),
      observations = (\<lambda>sid. Ok [\<lparr>raw_date = ''2024-01-01'', raw_value = ''5.0''\<rparr>,
                                 \<lparr>raw_date = ''2024-01-01'', raw_value = ''6.0''\<rparr>])\<rparr>"

text \<open>An answer out of order that holds the missing-data marker, and the state after it.\<close>

definition sentinel_raw :: "raw_observation list" where
  "sentinel_raw =
     [\<lparr>raw_date = ''2024-02-01'', raw_value = ''.''\<rparr>,
      \<lparr>raw_date = ''2024-01-01'', raw_value = ''100''\<rparr>,
      \<lparr>raw_date = ''2023-12-01'', raw_value = ''5.0''\<rparr>]"

definition prov_sentinel :: provider where
  "prov_sentinel = \<lparr>search = (\<lambda>q. Ok []), observations = (\<lambda>sid. Ok sentinel_raw)\<rparr>"

definition sentinel_state :: app_state where
  "sentinel_state = fst (run_effect (Some ''key'') prov_sentinel gdp_state)"

definition dup_state :: app_state where
  "dup_state = fst (run_effect (Some ''key'') prov_dup gdp_state)"

definition fetched_state :: app_state where
  "fetched_state = fst (run_effect (Some ''key'') prov_ok gdp_state)"


text \<open>Search answers for the housing pick function.\<close>

definition cands :: "candidate list" where
  "cands =
     [\<lparr>id' = ''MEDLISPRI33100'', title = ''Median Listing Price: Miami''\<rparr>,
      \<lparr>id' = ''actliscou45300'', title = ''active listing count: Tampa''\<rparr>,
      \<lparr>id' = ''ACTLISCOU33100'', title = ''Active Listing Count: Miami''\<rparr>]"

definition cands_other :: "candidate list" where
  "cands_other = [\<lparr>id' = ''MEDLISPRI33100'', title = ''Median Listing Price: Miami''\<rparr>]"

text \<open>Cached series and plans for the alignment.\<close>

definition rows_a :: "observation list" where
  "rows_a = [\<lparr>date = ''2024-01-01'', val = Fin 1\<rparr>, \<lparr>date = ''2024-02-01'', val = Fin 2\<rparr>]"

definition rows_b :: "observation list" where
  "rows_b = [\<lparr>date = ''2024-02-01'', val = Fin 3\<rparr>, \<lparr>date = ''2024-03-01'', val = Fin 4\<rparr>]"

definition rows_long :: "observation list" where
  "rows_long =
     map (\<lambda>d. \<lparr>date = d, val = Fin 7\<rparr>)
       [''2023-01-01'', ''2023-02-01'', ''2023-03-01'', ''2023-04-01'', ''2023-05-01'',
        ''2023-06-01'', ''2023-07-01'', ''2023-08-01'', ''2023-09-01'', ''2023-10-01'',
        ''2023-11-01'', ''2023-12-01'', ''2024-01-01'']"

definition plan_a :: planned where
  "plan_a = \<lparr>cbsa = ''33100'', msaName = msaName_of ''33100'', seriesId = ''RGMP33100''\<rparr>"

definition plan_b :: planned where
  "plan_b = \<lparr>cbsa = ''45300'', msaName = msaName_of ''45300'', seriesId = ''RGMP45300''\<rparr>"

definition cache_a :: "string \<rightharpoonup> observation list" where
  "cache_a = [''RGMP33100'' \<mapsto> rows_a]"

definition cache_ab :: "string \<rightharpoonup> observation list" where
  "cache_ab = [''RGMP33100'' \<mapsto> rows_a, ''RGMP45300'' \<mapsto> rows_b]"

definition cache_long :: "string \<rightharpoonup> observation list" where
  "cache_long = [''RGMP33100'' \<mapsto> rows_long, ''RGMP45300'' \<mapsto> rows_b]"

section \<open>Lemmas on the helper functions\<close>

subsection \<open>What the regular-expression tests decide\<close>

lemma starts_with_iff: "starts_with pat s \<longleftrightarrow> (\<exists>v. s = pat @ v)"
  by (induction pat s rule: starts_with.induct) auto

lemma test_substr_iff: "test_substr pat s \<longleftrightarrow> (\<exists>u v. s = u @ pat @ v)"
proof (induction s)
  case Nil
  then show ?case by auto
next
  case (Cons c cs)
  show ?case
  proof
    assume "test_substr pat (c # cs)"
    then consider "starts_with pat (c # cs)" | "test_substr pat cs"
      by (auto split: if_splits)
    then show "\<exists>u v. c # cs = u @ pat @ v"
    proof cases
      case 1
      then obtain v where "c # cs = pat @ v" by (auto simp: starts_with_iff)
      then have "c # cs = [] @ pat @ v" by simp
      then show ?thesis by blast
    next
      case 2
      then obtain u v where "cs = u @ pat @ v" using Cons.IH by auto
      then have "c # cs = (c # u) @ pat @ v" by simp
      then show ?thesis by blast
    qed
  next
    assume "\<exists>u v. c # cs = u @ pat @ v"
    then obtain u v where uv: "c # cs = u @ pat @ v" by blast
    show "test_substr pat (c # cs)"
    proof (cases u)
      case Nil
      then have "starts_with pat (c # cs)" using uv by (auto simp: starts_with_iff)
      then show ?thesis by simp
    next
      case (Cons a u')
      then have "cs = u' @ pat @ v" using uv by simp
      then have "test_substr pat cs" using Cons.IH by blast
      then show ?thesis by simp
    qed
  qed
qed

lemma test_prefix_i_iff:
  "test_prefix_i pat s \<longleftrightarrow> (\<exists>u v. s = u @ v \<and> map to_upper u = map to_upper pat)"
proof (induction pat s rule: test_prefix_i.induct)
  case (1 s)
  then show ?case by simp
next
  case (2 p ps)
  then show ?case by simp
next
  case (3 p ps c cs)
  show ?case
  proof
    assume "test_prefix_i (p # ps) (c # cs)"
    then have pc: "to_upper p = to_upper c" and "test_prefix_i ps cs"
      by (auto split: if_splits)
    then obtain u v where "cs = u @ v" "map to_upper u = map to_upper ps" using 3 by auto
    then have "c # cs = (c # u) @ v \<and> map to_upper (c # u) = map to_upper (p # ps)"
      using pc by simp
    then show "\<exists>u v. c # cs = u @ v \<and> map to_upper u = map to_upper (p # ps)" by blast
  next
    assume "\<exists>u v. c # cs = u @ v \<and> map to_upper u = map to_upper (p # ps)"
    then obtain u v where uv: "c # cs = u @ v" "map to_upper u = map to_upper (p # ps)" by blast
    then obtain u' where u: "u = c # u'" by (cases u) auto
    with uv have "cs = u' @ v" "map to_upper u' = map to_upper ps" "to_upper p = to_upper c"
      by auto
    then show "test_prefix_i (p # ps) (c # cs)" using 3 by auto
  qed
qed

lemma test_substr_i_iff:
  "test_substr_i pat s \<longleftrightarrow> (\<exists>w u v. s = w @ u @ v \<and> map to_upper u = map to_upper pat)"
proof (induction s)
  case Nil
  then show ?case by auto
next
  case (Cons c cs)
  show ?case
  proof
    assume "test_substr_i pat (c # cs)"
    then consider "test_prefix_i pat (c # cs)" | "test_substr_i pat cs"
      by (auto split: if_splits)
    then show "\<exists>w u v. c # cs = w @ u @ v \<and> map to_upper u = map to_upper pat"
    proof cases
      case 1
      then obtain u v where "c # cs = u @ v" "map to_upper u = map to_upper pat"
        by (auto simp: test_prefix_i_iff)
      then have "c # cs = [] @ u @ v \<and> map to_upper u = map to_upper pat" by simp
      then show ?thesis by blast
    next
      case 2
      then obtain w u v where "cs = w @ u @ v" "map to_upper u = map to_upper pat"
        using Cons.IH by auto
      then have "c # cs = (c # w) @ u @ v \<and> map to_upper u = map to_upper pat" by simp
      then show ?thesis by blast
    qed
  next
    assume "\<exists>w u v. c # cs = w @ u @ v \<and> map to_upper u = map to_upper pat"
    then obtain w u v where wuv: "c # cs = w @ u @ v" "map to_upper u = map to_upper pat"
      by blast
    show "test_substr_i pat (c # cs)"
    proof (cases w)
      case Nil
      then have "test_prefix_i pat (c # cs)" using wuv by (auto simp: test_prefix_i_iff)
      then show ?thesis by simp
    next
      case (Cons a w')
      then have "cs = w' @ u @ v" using wuv by simp
      then have "test_substr_i pat cs" using Cons.IH wuv(2) by blast
      then show ?thesis by simp
    qed
  qed
qed

subsection \<open>Lists, promises and assignments\<close>

lemma find_filter: "find P (filter Q xs) = find (\<lambda>x. Q x \<and> P x) xs"
  by (induction xs) auto

lemma first_filter: "first (filter Q xs) = find Q xs"
  by (induction xs) auto

lemma find_Some_mem: "find P xs = Some x \<Longrightarrow> x \<in> set xs \<and> P x"
  by (induction xs) (auto split: if_splits)

lemma promise_all_Inr: "promise_all rs = Inr vs \<Longrightarrow> rs = map Inr vs"
  by (induction rs arbitrary: vs rule: promise_all.induct) (auto split: sum.splits)

lemma promise_all_Inl: "Inl e \<in> set rs \<Longrightarrow> \<exists>e'. promise_all rs = Inl e'"
  by (induction rs rule: promise_all.induct) (auto split: sum.splits)

lemma promise_all_no_Inl: "\<forall>r \<in> set rs. \<exists>v. r = Inr v \<Longrightarrow> \<exists>vs. promise_all rs = Inr vs"
  by (induction rs rule: promise_all.induct) auto

lemma assign_all_find:
  "assign_all m kvs k =
     (case find (\<lambda>kv. fst kv = k) (rev kvs) of Some kv \<Rightarrow> Some (snd kv) | None \<Rightarrow> m k)"
  unfolding assign_all_def
  by (induction kvs rule: rev_induct) (auto split: prod.splits)

lemma assign_all_other: "k \<notin> fst ` set kvs \<Longrightarrow> assign_all m kvs k = m k"
proof (cases "find (\<lambda>kv. fst kv = k) (rev kvs)")
  case None
  then show ?thesis by (simp add: assign_all_find)
next
  case (Some kv)
  then have "kv \<in> set kvs \<and> fst kv = k" using find_Some_mem by fastforce
  moreover assume "k \<notin> fst ` set kvs"
  ultimately show ?thesis by auto
qed

lemma assign_all_Some:
  "assign_all m kvs k = Some v \<Longrightarrow> m k = Some v \<or> (k, v) \<in> set kvs"
  by (auto simp: assign_all_find split: option.splits dest!: find_Some_mem)

lemma assign_all_dom: "dom m \<subseteq> dom (assign_all m kvs)"
  by (auto simp: assign_all_find split: option.splits)

lemma mk_key_inj: "mk_key k c = mk_key k c' \<Longrightarrow> c = c'"
  by (simp add: mk_key_def)

lemma cands_33100:
  "find (\<lambda>s. is_listing_count s \<and> test_substr ''33100'' (id' s)) cands
     = Some \<lparr>id' = ''ACTLISCOU33100'', title = ''Active Listing Count: Miami''\<rparr>"
  by code_simp

lemma cands_12060:
  "find (\<lambda>s. is_listing_count s \<and> test_substr ''12060'' (id' s)) cands = None
   \<and> find is_listing_count cands
       = Some \<lparr>id' = ''actliscou45300'', title = ''active listing count: Tampa''\<rparr>"
  by code_simp

lemma cands_first:
  "find (\<lambda>s. is_listing_count s \<and> test_substr ''12060'' (id' s)) cands_other = None
   \<and> find is_listing_count cands_other = None
   \<and> id' (hd cands_other) = ''MEDLISPRI33100''"
  by code_simp

lemma Number_100: "Number ''100'' = Fin 100"
  by code_simp

lemma Number_5: "Number ''5.0'' = Fin 5"
  by code_simp

lemma Number_6: "Number ''6.0'' = Fin 6"
  by code_simp

section \<open>Lemmas on the planned series and the fetch effect\<close>

lemma planned_entry:
  "p \<in> set (plannedSeries s) \<longleftrightarrow>
     (\<exists>c \<in> set (selectedMsas s).
        p = \<lparr>cbsa = c, msaName = msaName_of c,
             seriesId = or_else (SERIES_OVERRIDES (mk_key (indicatorKey s) c))
                          (or_else (seriesIdMap s (mk_key (indicatorKey s) c))
                             (seriesIdForCbsa (INDICATORS (indicatorKey s)) c))\<rparr>)"
  by (auto simp: plannedSeries_def Let_def)

text \<open>A static override decides the planned id, whatever the resolved-id map holds.\<close>

lemma static_override_wins:
  assumes "SERIES_OVERRIDES (mk_key (indicatorKey s) c) = Some v" and "c \<in> set (selectedMsas s)"
  shows "\<lparr>cbsa = c, msaName = msaName_of c, seriesId = v\<rparr> \<in> set (plannedSeries s)"
proof -
  have "v \<noteq> []"
    using assms(1) by (auto simp: SERIES_OVERRIDES_def split: if_splits)
  then show ?thesis
    using assms by (force simp: planned_entry)
qed

lemma msaName_of_registry:
  "msaName_of ''33100'' = ''Miami'' @ en_dash @ ''Fort Lauderdale'' @ en_dash @ ''West Palm Beach, FL''
   \<and> msaName_of ''45300'' = ''Tampa'' @ en_dash @ ''St. Petersburg'' @ en_dash @ ''Clearwater, FL''
   \<and> msaName_of ''36740'' = ''Orlando'' @ en_dash @ ''Kissimmee'' @ en_dash @ ''Sanford, FL''
   \<and> msaName_of ''12060'' = ''Atlanta'' @ en_dash @ ''Sandy Springs'' @ en_dash @ ''Roswell, GA''"
  by (simp add: msaName_of_def MSAS_def en_dash_def)

lemma plannedSeries_toggle_on:
  "c \<notin> set (selectedMsas s) \<Longrightarrow>
   plannedSeries (onToggleMsa c s) = plannedSeries s @ plannedSeries (s\<lparr>selectedMsas := [c]\<rparr>)"
  by (simp add: plannedSeries_def onToggleMsa_def)

lemma fetchMissing_frame:
  "indicatorKey (fst (fetchMissing prov s)) = indicatorKey s
   \<and> selectedMsas (fst (fetchMissing prov s)) = selectedMsas s
   \<and> loading (fst (fetchMissing prov s)) = False
   \<and> error (fst (fetchMissing prov s)) = []"
  by (simp add: fetchMissing_def Let_def split: sum.splits)

lemma run_effect_frame:
  "indicatorKey (fst (run_effect k prov s)) = indicatorKey s
   \<and> selectedMsas (fst (run_effect k prov s)) = selectedMsas s"
  by (simp add: run_effect_def fetchMissing_frame)

lemma fetchMissing_cache_cases:
  "seriesCache (fst (fetchMissing prov s)) = seriesCache s
   \<or> (\<exists>results.
         promise_all (map (fetch_one prov (INDICATORS (indicatorKey s))) (missing s)) = Inr results
         \<and> seriesCache (fst (fetchMissing prov s)) = assign_all (seriesCache s) results)"
  by (auto simp: fetchMissing_def Let_def split: sum.splits)

lemma fetchMissing_idmap_cases:
  "seriesIdMap (fst (fetchMissing prov s)) = seriesIdMap s
   \<or> (\<exists>ds. promise_all (map (snd \<circ> discover prov s) (plannedSeries s)) = Inr ds
         \<and> seriesIdMap (fst (fetchMissing prov s)) =
             assign_all (seriesIdMap s)
               (concat (map (\<lambda>d. case d of None \<Rightarrow> [] | Some kv \<Rightarrow> [kv]) ds)))"
  by (auto simp: fetchMissing_def Let_def split: sum.splits)


lemma fetchMissing_searches_first:
  "\<exists>rest. snd (fetchMissing prov s) =
     concat (map (fst \<circ> discover prov s)
               (if needsDiscovery (INDICATORS (indicatorKey s)) then plannedSeries s else []))
     @ rest"
  by (simp add: fetchMissing_def Let_def split: sum.splits)


lemma fetchMissing_requests_ok:
  assumes "promise_all (map (snd \<circ> discover prov s) (plannedSeries s)) = Inr ds"
  shows "set (map (Observations \<circ> seriesId) (missing s)) \<subseteq> set (snd (fetchMissing prov s))"
  using assms by (auto simp: fetchMissing_def Let_def split: sum.splits)

lemma fetchMissing_stores:
  "fst (fetchMissing prov s) =
     (case batch_entries prov s of
        Inl e \<Rightarrow> s\<lparr>error := [], loading := False\<rparr>
      | Inr entries \<Rightarrow>
          (case batch_results prov s of
             Inl e \<Rightarrow> (store_entries entries s)\<lparr>error := [], loading := False\<rparr>
           | Inr results \<Rightarrow>
               (store_results results (store_entries entries s))\<lparr>error := [], loading := False\<rparr>))"
  by (auto simp: fetchMissing_def batch_entries_def batch_results_def store_entries_def
      store_results_def assign_all_def Let_def split: sum.splits)

lemma fetch_one_answer:
  "fetch_one prov ind p = Inr (sid, rows) \<Longrightarrow>
   sid = seriesId p \<and> (\<exists>raws. observations prov sid = Ok raws \<and> rows = cleaned ind raws)"
  by (auto simp: fetch_one_def split: response.splits)

lemma batch_results_answer:
  assumes "batch_results prov c = Inr results" and "(sid, rows) \<in> set results"
  shows "sid \<in> seriesId ` set (missing c)
         \<and> (\<exists>raws. observations prov sid = Ok raws
               \<and> rows = cleaned (INDICATORS (indicatorKey c)) raws)"
proof -
  let ?ind = "INDICATORS (indicatorKey c)"
  from assms(1) have "map (fetch_one prov ?ind) (missing c) = map Inr results"
    unfolding batch_results_def by (rule promise_all_Inr)
  then have "Inr (sid, rows) \<in> set (map (fetch_one prov ?ind) (missing c))"
    using assms(2) by simp
  then obtain p where "p \<in> set (missing c)" and "fetch_one prov ?ind p = Inr (sid, rows)"
    by auto
  then show ?thesis using fetch_one_answer by blast
qed


lemma store_results_entry:
  assumes "batch_results prov c = Inr results"
    and "seriesCache (store_results results cur) sid = Some rows"
  shows "seriesCache cur sid = Some rows
         \<or> (\<exists>raws. observations prov sid = Ok raws
               \<and> rows = cleaned (INDICATORS (indicatorKey c)) raws)"
proof -
  from assms(2) have "seriesCache cur sid = Some rows \<or> (sid, rows) \<in> set results"
    using assign_all_Some by (fastforce simp: store_results_def)
  then show ?thesis using batch_results_answer [OF assms(1)] by blast
qed

lemma fetchMissing_cache_entry:
  assumes "seriesCache (fst (fetchMissing prov s)) sid = Some rows"
  shows "seriesCache s sid = Some rows
         \<or> (\<exists>raws. observations prov sid = Ok raws
               \<and> rows = cleaned (INDICATORS (indicatorKey s)) raws)"
proof -
  from fetchMissing_cache_cases [of prov s] show ?thesis
  proof
    assume "seriesCache (fst (fetchMissing prov s)) = seriesCache s"
    then show ?thesis using assms by simp
  next
    assume "\<exists>results.
         promise_all (map (fetch_one prov (INDICATORS (indicatorKey s))) (missing s)) = Inr results
         \<and> seriesCache (fst (fetchMissing prov s)) = assign_all (seriesCache s) results"
    then obtain results
      where "batch_results prov s = Inr results"
        and "seriesCache (fst (fetchMissing prov s)) = seriesCache (store_results results s)"
      by (auto simp: batch_results_def store_results_def)
    then show ?thesis using assms store_results_entry by metis
  qed
qed


text \<open>
  Every series in the cache of a session state is the cleaning of the answer that a provider
  of the session gave for its id.
\<close>

lemma session_cache_answer:
  "session ps s \<Longrightarrow> seriesCache s sid = Some rows \<Longrightarrow>
   \<exists>prov \<in> set ps. \<exists>k raws. observations prov sid = Ok raws \<and> rows = cleaned (INDICATORS k) raws"
proof (induction arbitrary: rows rule: session.induct)
  case start
  then show ?case by (simp add: initial_state_def)
next
  case (select_indicator ps s k)
  then show ?case by (simp add: onSelectIndicator_def)
next
  case (toggle_msa ps s c)
  then show ?case by (simp add: onToggleMsa_def)
next
  case (clear_all ps s)
  then show ?case by (simp add: onClearAll_def)
next
  case (run ps s prov apiKey)
  show ?case
  proof (cases "truthy apiKey")
    case True
    with run.prems have "seriesCache (fst (fetchMissing prov s)) sid = Some rows"
      by (simp add: run_effect_def)
    then have "seriesCache s sid = Some rows
         \<or> (\<exists>raws. observations prov sid = Ok raws
               \<and> rows = cleaned (INDICATORS (indicatorKey s)) raws)"
      by (rule fetchMissing_cache_entry)
    then show ?thesis using run.IH by fastforce
  next
    case False
    with run.prems have "seriesCache s sid = Some rows" by (simp add: run_effect_def)
    then show ?thesis using run.IH by fastforce
  qed
next
  case (entries_stored ps cur qs c prov entries)
  then have "seriesCache cur sid = Some rows" by (simp add: store_entries_def split: if_splits)
  then show ?case using entries_stored.IH(1) by fastforce
next
  case (results_stored ps cur qs c prov entries results)
  then have "seriesCache cur sid = Some rows
         \<or> (\<exists>raws. observations prov sid = Ok raws
               \<and> rows = cleaned (INDICATORS (indicatorKey c)) raws)"
    using store_results_entry by blast
  then show ?case using results_stored.IH(1) by fastforce
next
  case (flags ps s b)
  then show ?case by simp
qed

lemma discover_key:
  "snd (discover prov s p) = Inr (Some (k, v)) \<Longrightarrow> k = mk_key (indicatorKey s) (cbsa p)"
  by (auto simp: discover_def Let_def split: if_splits option.splits response.splits)

lemma discover_empty:
  assumes "searchText (INDICATORS (indicatorKey s)) = Some text_of"
    and "search prov (text_of (msaName p)) = Ok []"
  shows "snd (discover prov s p) = Inr None"
  using assms by (simp add: discover_def Let_def)

lemma discover_not_thrown:
  assumes "searchText (INDICATORS (indicatorKey s)) = Some text_of"
    and "search prov (text_of (msaName p)) \<noteq> Rejected"
  shows "\<exists>v. snd (discover prov s p) = Inr v"
  using assms by (auto simp: discover_def Let_def split: response.splits option.splits)

subsection \<open>The concrete runs\<close>

lemma session_gdp: "session [] gdp_state"
  unfolding gdp_state_def by (intro session.intros)

lemma sentinel_cache:
  "seriesCache sentinel_state ''RGMP33100'' =
     Some [\<lparr>date = ''2023-12-01'', val = Fin 5\<rparr>, \<lparr>date = ''2024-01-01'', val = Fin 100\<rparr>]"
  by (simp add: sentinel_state_def run_effect_def fetchMissing_def missing_def fetch_one_def
      assign_all_def cleaned_def clean_record_def sentinel_raw_def Number_5 Number_100
      prov_sentinel_def gdp_state_def onSelectIndicator_def initial_state_def plannedSeries_def
      mk_key_def SERIES_OVERRIDES_def Let_def)

lemma gdp_missing: "plan_a \<in> set (missing gdp_state)"
  by (simp add: missing_def plan_a_def gdp_state_def onSelectIndicator_def initial_state_def
      plannedSeries_def mk_key_def SERIES_OVERRIDES_def Let_def)

lemma dup_cache:
  "seriesCache dup_state ''RGMP33100'' =
     Some [\<lparr>date = ''2024-01-01'', val = Fin 5\<rparr>, \<lparr>date = ''2024-01-01'', val = Fin 6\<rparr>]"
  by (simp add: dup_state_def run_effect_def fetchMissing_def missing_def fetch_one_def
      assign_all_def cleaned_def clean_record_def Number_5 Number_6 prov_dup_def gdp_state_def
      onSelectIndicator_def initial_state_def plannedSeries_def mk_key_def SERIES_OVERRIDES_def
      Let_def)








section \<open>Lemmas on the alignment\<close>

lemma set_add_set: "set (set_add ds d) = insert d (set ds)"
  by (auto simp: set_add_def)

lemma set_add_distinct: "distinct ds \<Longrightarrow> distinct (set_add ds d)"
  by (simp add: set_add_def)

lemma add_rows_set:
  "set (foldl (\<lambda>ds r. set_add ds (date r)) acc rows) = set acc \<union> date ` set rows"
  by (induction rows arbitrary: acc) (auto simp: set_add_set)

lemma add_rows_distinct:
  "distinct acc \<Longrightarrow> distinct (foldl (\<lambda>ds r. set_add ds (date r)) acc rows)"
  by (induction rows arbitrary: acc) (auto simp: set_add_distinct)

lemma add_plan_set:
  "set (foldl (\<lambda>dateSet p. foldl (\<lambda>ds r. set_add ds (date r)) dateSet
                            (rows_of cache (seriesId p))) acc plan)
     = set acc \<union> (\<Union>p \<in> set plan. date ` set (rows_of cache (seriesId p)))"
  by (induction plan arbitrary: acc) (auto simp: add_rows_set)

lemma add_plan_distinct:
  "distinct acc \<Longrightarrow>
   distinct (foldl (\<lambda>dateSet p. foldl (\<lambda>ds r. set_add ds (date r)) dateSet
                                 (rows_of cache (seriesId p))) acc plan)"
  by (induction plan arbitrary: acc) (auto simp: add_rows_distinct)

lemma unifiedDates_set:
  "set (unifiedDates cache plan) = (\<Union>p \<in> set plan. date ` set (rows_of cache (seriesId p)))"
  by (simp add: unifiedDates_def add_plan_set)

lemma unifiedDates_strict: "sorted_wrt (<) (unifiedDates cache plan)"
  by (simp add: unifiedDates_def strict_sorted_iff add_plan_distinct)

lemma unifiedDates_canonical:
  "unifiedDates cache plan =
     sorted_list_of_set (\<Union>p \<in> set plan. date ` set (rows_of cache (seriesId p)))"
proof -
  have "sorted_wrt (<) (unifiedDates cache plan)" by (rule unifiedDates_strict)
  then show ?thesis
    using unifiedDates_set [of cache plan] sorted_list_of_set.idem_if_sorted_distinct
    by (metis strict_sorted_iff)
qed

lemma rows_of_mono:
  "cache \<subseteq>\<^sub>m cache' \<Longrightarrow> set (rows_of cache sid) \<subseteq> set (rows_of cache' sid)"
proof (cases "cache sid")
  case None
  then show ?thesis by (simp add: rows_of_def)
next
  case (Some rows)
  assume "cache \<subseteq>\<^sub>m cache'"
  then have "cache' sid = Some rows"
    using Some by (metis domI map_le_def)
  then show ?thesis using Some by (simp add: rows_of_def)
qed

lemma date_map_find:
  "foldl (\<lambda>m r. m(date r \<mapsto> val r)) m0 rows d =
     (case find (\<lambda>r. date r = d) (rev rows) of Some r \<Rightarrow> Some (val r) | None \<Rightarrow> m0 d)"
  by (induction rows rule: rev_induct) auto

lemma date_map_last:
  "date_map rows d = map_option val (find (\<lambda>r. date r = d) (rev rows))"
  by (simp add: date_map_def date_map_find split: option.splits)

lemma date_map_None: "date_map rows d = None \<longleftrightarrow> d \<notin> date ` set rows"
  by (auto simp: date_map_last find_None_iff)

lemma pivot_vals:
  "map (\<lambda>idx. (map f plan ! idx) d) [0..<length plan] = map (\<lambda>p. f p d) plan"
  by (rule nth_equalityI) auto

lemma axis_a: "unifiedDates cache_a [plan_a] = [''2024-01-01'', ''2024-02-01'']"
  by (simp add: unifiedDates_def cache_a_def plan_a_def rows_a_def rows_of_def set_add_def)

lemma axis_ab:
  "unifiedDates cache_ab [plan_a, plan_b] = [''2024-01-01'', ''2024-02-01'', ''2024-03-01'']"
  by (simp add: unifiedDates_def cache_ab_def plan_a_def plan_b_def rows_a_def rows_b_def
      rows_of_def set_add_def)

lemma axis_long:
  "unifiedDates cache_long [plan_a, plan_b] =
     [''2023-01-01'', ''2023-02-01'', ''2023-03-01'', ''2023-04-01'', ''2023-05-01'',
      ''2023-06-01'', ''2023-07-01'', ''2023-08-01'', ''2023-09-01'', ''2023-10-01'',
      ''2023-11-01'', ''2023-12-01'', ''2024-01-01'', ''2024-02-01'', ''2024-03-01'']"
  by (simp add: unifiedDates_def cache_long_def plan_a_def plan_b_def rows_long_def rows_b_def
      rows_of_def set_add_def)

section \<open>The claims\<close>

text \<open>
  Claim C1. For the housing indicator with the regions 33100 and 45300 the planned series
  ids are the static overrides ACTLISCOU33100 and ACTLISCOU45300. The discovery step of the
  effect does not look at the override table, though: its guard skips a pair only when the
  resolved-id map holds an id for it, so on a fresh map the effect starts with one search
  request for each of the two pairs, whatever the provider answers.
\<close>

theorem C1_search_issued_for_overrides:
  "map seriesId (plannedSeries housing_state) = [''ACTLISCOU33100'', ''ACTLISCOU45300'']
   \<and> take 2 (snd (run_effect (Some ''key'') prov housing_state)) =
       [Search (''Housing Inventory: Active Listing Count in '' @ msaName_of ''33100''),
        Search (''Housing Inventory: Active Listing Count in '' @ msaName_of ''45300'')]"
proof -
  have plan: "plannedSeries housing_state =
     [\<lparr>cbsa = ''33100'', msaName = msaName_of ''33100'', seriesId = ''ACTLISCOU33100''\<rparr>,
      \<lparr>cbsa = ''45300'', msaName = msaName_of ''45300'', seriesId = ''ACTLISCOU45300''\<rparr>]"
    by (simp add: housing_state_def onSelectIndicator_def initial_state_def plannedSeries_def
        mk_key_def SERIES_OVERRIDES_def Let_def)
  have k: "indicatorKey housing_state = HOUSING_HPI" "seriesIdMap housing_state = Map.empty"
    by (simp_all add: housing_state_def onSelectIndicator_def)
  obtain rest where "snd (fetchMissing prov housing_state) =
     concat (map (fst \<circ> discover prov housing_state)
               (if needsDiscovery (INDICATORS (indicatorKey housing_state))
                then plannedSeries housing_state else []))
     @ rest"
    using fetchMissing_searches_first by blast
  then have "snd (fetchMissing prov housing_state) =
       [Search (''Housing Inventory: Active Listing Count in '' @ msaName_of ''33100''),
        Search (''Housing Inventory: Active Listing Count in '' @ msaName_of ''45300'')] @ rest"
    by (simp add: plan k discover_def Let_def)
  then show ?thesis
    by (simp add: plan run_effect_def)
qed

text \<open>
  Claim C2, as the code has it. When the observations request of one missing series of a
  batch is answered with a non-success status, the whole batch is dropped: the cache after
  the run is the cache before it, so no series of the batch is written, and the loading flag
  is cleared.
\<close>

theorem C2_batch_all_or_nothing:
  assumes "p \<in> set (missing s)" and "observations prov (seriesId p) = NotOk st"
  shows "seriesCache (fst (fetchMissing prov s)) = seriesCache s
         \<and> loading (fst (fetchMissing prov s)) = False"
proof -
  let ?ind = "INDICATORS (indicatorKey s)"
  have "fetch_one prov ?ind p = Inl (HttpError st)"
    using assms(2) by (simp add: fetch_one_def)
  then have "Inl (HttpError st) \<in> set (map (fetch_one prov ?ind) (missing s))"
    using assms(1) by force
  then obtain e where "promise_all (map (fetch_one prov ?ind) (missing s)) = Inl e"
    using promise_all_Inl by blast
  then have "seriesCache (fst (fetchMissing prov s)) = seriesCache s"
    using fetchMissing_cache_cases [of prov s] by auto
  then show ?thesis by (simp add: fetchMissing_frame)
qed

theorem C2_batch_all_or_nothing_witness:
  "plan_a \<in> set (missing gdp_state)
   \<and> observations prov_partial (seriesId plan_a) = NotOk 500
   \<and> seriesCache (fst (fetchMissing prov_partial gdp_state)) = seriesCache gdp_state
   \<and> loading (fst (fetchMissing prov_partial gdp_state)) = False"
proof -
  have h: "observations prov_partial (seriesId plan_a) = NotOk 500"
    by (simp add: prov_partial_def plan_a_def)
  show ?thesis
    using gdp_missing h C2_batch_all_or_nothing [OF gdp_missing h] by simp
qed

text \<open>
  The claim as the specification states it fails: under GDP with the regions 33100 and
  45300, the request for RGMP33100 is answered with status 500 and the one for RGMP45300
  with data; both requests are issued, RGMP45300 is not in the cache afterwards, and the
  error stored is the empty string.
\<close>

theorem C2_counterexample:
  "observations prov_partial ''RGMP33100'' = NotOk 500
   \<and> observations prov_partial ''RGMP45300'' = Ok one_row
   \<and> snd (fetchMissing prov_partial gdp_state) =
       [Observations ''RGMP33100'', Observations ''RGMP45300'']
   \<and> seriesCache (fst (fetchMissing prov_partial gdp_state)) ''RGMP45300'' = None
   \<and> error (fst (fetchMissing prov_partial gdp_state)) = []"
  by (simp add: fetchMissing_def missing_def fetch_one_def prov_partial_def gdp_state_def
      onSelectIndicator_def initial_state_def plannedSeries_def mk_key_def SERIES_OVERRIDES_def
      Let_def)

text \<open>
  Claim C3, as the code has it. For an indicator that needs discovery and a selected region
  with no static override and no discovered id, a search answered with an empty candidate
  list records no id for the pair in the resolved-id map. The pair still has a planned
  series id, before and after the run: the indicator's pattern id
  \<^verbatim>\<open>seriesIdForCbsa(cbsa)\<close>. When that id is not cached and no search of the batch is
  rejected, the run requests its observations.
\<close>

theorem C3_discovery_miss:
  assumes nd: "needsDiscovery (INDICATORS (indicatorKey s))"
    and st: "searchText (INDICATORS (indicatorKey s)) = Some text_of"
    and no_static: "SERIES_OVERRIDES (mk_key (indicatorKey s) c) = None"
    and no_dyn: "seriesIdMap s (mk_key (indicatorKey s) c) = None"
    and empty: "search prov (text_of (msaName_of c)) = Ok []"
    and sel: "c \<in> set (selectedMsas s)"
  shows "seriesIdMap (fst (fetchMissing prov s)) (mk_key (indicatorKey s) c) = None
       \<and> \<lparr>cbsa = c, msaName = msaName_of c,
           seriesId = seriesIdForCbsa (INDICATORS (indicatorKey s)) c\<rparr> \<in> set (plannedSeries s)
       \<and> \<lparr>cbsa = c, msaName = msaName_of c,
           seriesId = seriesIdForCbsa (INDICATORS (indicatorKey s)) c\<rparr>
            \<in> set (plannedSeries (fst (fetchMissing prov s)))
       \<and> (seriesCache s (seriesIdForCbsa (INDICATORS (indicatorKey s)) c) = None
            \<and> (\<forall>p \<in> set (plannedSeries s). search prov (text_of (msaName p)) \<noteq> Rejected)
          \<longrightarrow> Observations (seriesIdForCbsa (INDICATORS (indicatorKey s)) c)
                \<in> set (snd (fetchMissing prov s)))"
proof -
  let ?key = "mk_key (indicatorKey s) c"
  let ?pat = "seriesIdForCbsa (INDICATORS (indicatorKey s)) c"
  let ?p = "\<lparr>cbsa = c, msaName = msaName_of c, seriesId = ?pat\<rparr>"
  let ?s' = "fst (fetchMissing prov s)"
  let ?entries = "\<lambda>ds. concat (map (\<lambda>d. case d of None \<Rightarrow> [] | Some kv \<Rightarrow> [kv]) ds)"
  have map_after: "seriesIdMap ?s' ?key = None"
  proof -
    from fetchMissing_idmap_cases [of prov s] show ?thesis
    proof
      assume "seriesIdMap ?s' = seriesIdMap s"
      then show ?thesis using no_dyn by simp
    next
      assume "\<exists>ds. promise_all (map (snd \<circ> discover prov s) (plannedSeries s)) = Inr ds
         \<and> seriesIdMap ?s' = assign_all (seriesIdMap s) (?entries ds)"
      then obtain ds
        where pa: "promise_all (map (snd \<circ> discover prov s) (plannedSeries s)) = Inr ds"
          and m: "seriesIdMap ?s' = assign_all (seriesIdMap s) (?entries ds)"
        by blast
      have "?key \<notin> fst ` set (?entries ds)"
      proof
        assume "?key \<in> fst ` set (?entries ds)"
        then obtain v where "Some (?key, v) \<in> set ds"
          by (auto split: option.splits)
        moreover from pa have "map (snd \<circ> discover prov s) (plannedSeries s) = map Inr ds"
          by (rule promise_all_Inr)
        ultimately have
          "Inr (Some (?key, v)) \<in> set (map (snd \<circ> discover prov s) (plannedSeries s))"
          by simp
        then obtain p where p: "p \<in> set (plannedSeries s)"
          and d: "snd (discover prov s p) = Inr (Some (?key, v))"
          by auto
        from d have "?key = mk_key (indicatorKey s) (cbsa p)" by (rule discover_key)
        then have "cbsa p = c" using mk_key_inj by metis
        moreover from p have "msaName p = msaName_of (cbsa p)"
          by (auto simp: planned_entry)
        ultimately have "search prov (text_of (msaName p)) = Ok []" using empty by simp
        then have "snd (discover prov s p) = Inr None"
          using st by (rule discover_empty [rotated])
        with d show False by simp
      qed
      then show ?thesis using m no_dyn by (simp add: assign_all_other)
    qed
  qed
  have before: "?p \<in> set (plannedSeries s)"
    using sel no_static no_dyn by (force simp: planned_entry)
  have frame: "indicatorKey ?s' = indicatorKey s" "selectedMsas ?s' = selectedMsas s"
    by (simp_all add: fetchMissing_frame)
  have after: "?p \<in> set (plannedSeries ?s')"
    using sel no_static map_after frame by (force simp: planned_entry)
  have req: "seriesCache s ?pat = None
            \<and> (\<forall>p \<in> set (plannedSeries s). search prov (text_of (msaName p)) \<noteq> Rejected)
          \<longrightarrow> Observations ?pat \<in> set (snd (fetchMissing prov s))"
  proof
    assume a: "seriesCache s ?pat = None
            \<and> (\<forall>p \<in> set (plannedSeries s). search prov (text_of (msaName p)) \<noteq> Rejected)"
    then have "\<forall>r \<in> set (map (snd \<circ> discover prov s) (plannedSeries s)). \<exists>v. r = Inr v"
      using discover_not_thrown [OF st] by auto
    then obtain ds where "promise_all (map (snd \<circ> discover prov s) (plannedSeries s)) = Inr ds"
      using promise_all_no_Inl by blast
    then have "set (map (Observations \<circ> seriesId) (missing s)) \<subseteq> set (snd (fetchMissing prov s))"
      by (rule fetchMissing_requests_ok)
    moreover have "?p \<in> set (missing s)"
      using before a by (simp add: missing_def)
    ultimately show "Observations ?pat \<in> set (snd (fetchMissing prov s))"
      by force
  qed
  from map_after before after req show ?thesis by blast
qed

theorem C3_discovery_miss_witness:
  "needsDiscovery (INDICATORS (indicatorKey atlanta_state))
   \<and> SERIES_OVERRIDES (mk_key (indicatorKey atlanta_state) ''12060'') = None
   \<and> seriesIdMap atlanta_state (mk_key (indicatorKey atlanta_state) ''12060'') = None
   \<and> search prov_ok (msaName_of ''12060'' @ '' Unemployment Rate'') = Ok []
   \<and> ''12060'' \<in> set (selectedMsas atlanta_state)
   \<and> seriesIdMap (fst (fetchMissing prov_ok atlanta_state))
        (mk_key (indicatorKey atlanta_state) ''12060'') = None
   \<and> \<lparr>cbsa = ''12060'', msaName = msaName_of ''12060'', seriesId = ''LAUMT12120600000000003''\<rparr>
        \<in> set (plannedSeries (fst (fetchMissing prov_ok atlanta_state)))
   \<and> Observations ''LAUMT12120600000000003'' \<in> set (snd (fetchMissing prov_ok atlanta_state))"
proof -
  have k: "indicatorKey atlanta_state = EMP_RATE"
    by (simp add: atlanta_state_def initial_state_def)
  have nd: "needsDiscovery (INDICATORS (indicatorKey atlanta_state))"
    by (simp add: k)
  have st: "searchText (INDICATORS (indicatorKey atlanta_state))
              = Some (\<lambda>n. n @ '' Unemployment Rate'')"
    by (simp add: k)
  have no_static: "SERIES_OVERRIDES (mk_key (indicatorKey atlanta_state) ''12060'') = None"
    by (simp add: k SERIES_OVERRIDES_def mk_key_def)
  have no_dyn: "seriesIdMap atlanta_state (mk_key (indicatorKey atlanta_state) ''12060'') = None"
    by (simp add: atlanta_state_def initial_state_def)
  have empty: "search prov_ok (msaName_of ''12060'' @ '' Unemployment Rate'') = Ok []"
    by (simp add: prov_ok_def)
  have sel: "''12060'' \<in> set (selectedMsas atlanta_state)"
    by (simp add: atlanta_state_def)
  have cache: "seriesCache atlanta_state
                 (seriesIdForCbsa (INDICATORS (indicatorKey atlanta_state)) ''12060'') = None"
    by (simp add: atlanta_state_def initial_state_def)
  have answered: "\<forall>p \<in> set (plannedSeries atlanta_state).
                    search prov_ok (msaName p @ '' Unemployment Rate'') \<noteq> Rejected"
    by (simp add: prov_ok_def)
  have pat: "seriesIdForCbsa (INDICATORS (indicatorKey atlanta_state)) ''12060''
               = ''LAUMT12120600000000003''"
    by (simp add: k)
  show ?thesis
    using nd no_static no_dyn empty sel cache answered
      C3_discovery_miss [OF nd st no_static no_dyn empty sel]
    unfolding pat by blast
qed

text \<open>
  The claim as the specification states it fails: under the employment indicator with
  Atlanta alone, no override and no discovered id, the search finds no candidate; the plan
  still holds the pattern id LAUMT12120600000000003, the run requests its observations, and
  the answer is cleaned into the cache.
\<close>

theorem C3_counterexample:
  "SERIES_OVERRIDES (mk_key EMP_RATE ''12060'') = None
   \<and> seriesIdMap atlanta_state (mk_key EMP_RATE ''12060'') = None
   \<and> search prov_ok (msaName_of ''12060'' @ '' Unemployment Rate'') = Ok []
   \<and> map seriesId (plannedSeries atlanta_state) = [''LAUMT12120600000000003'']
   \<and> snd (fetchMissing prov_ok atlanta_state) =
       [Search (msaName_of ''12060'' @ '' Unemployment Rate''),
        Observations ''LAUMT12120600000000003'']
   \<and> seriesCache (fst (fetchMissing prov_ok atlanta_state)) ''LAUMT12120600000000003''
       = Some [\<lparr>date = ''2024-01-01'', val = Fin 95\<rparr>]"
  by (simp add: fetchMissing_def discover_def missing_def fetch_one_def assign_all_def
      cleaned_def clean_record_def one_row_def Number_5 prov_ok_def atlanta_state_def
      initial_state_def plannedSeries_def mk_key_def SERIES_OVERRIDES_def Let_def)

text \<open>
  Claim C4, as the code has it. The cleaned sequence holds exactly the records of the answer
  whose value is not the marker \<^verbatim>\<open>"."\<close>, each passed once through \<open>clean_record\<close>,
  which keeps the date and applies the indicator's \<^verbatim>\<open>transformValue\<close> to the number of
  the value when the indicator has one and leaves the number as it is otherwise; the
  sequence is sorted by date, ascending. On the scenario's answer the result is the single
  record of 2024-01-01; its value is 100 under an indicator without a transform, and the
  transform of 100 under an indicator with one.
\<close>

theorem C4_cleaned:
  "mset (cleaned ind raws) =
     image_mset (clean_record ind) (filter_mset (\<lambda>d. raw_value d \<noteq> ''.'') (mset raws))
   \<and> sorted (map date (cleaned ind raws))
   \<and> date (clean_record ind d) = raw_date d
   \<and> val (clean_record ind d) =
       (case transformValue ind of
          None \<Rightarrow> Number (raw_value d)
        | Some f \<Rightarrow> f (Number (raw_value d)))
   \<and> (transformValue ind = None \<longrightarrow>
        cleaned ind example_raw = [\<lparr>date = ''2024-01-01'', val = Fin 100\<rparr>])
   \<and> (transformValue ind = Some f \<longrightarrow>
        cleaned ind example_raw = [\<lparr>date = ''2024-01-01'', val = f (Fin 100)\<rparr>])"
  by (simp add: cleaned_def clean_record_def example_raw_def Number_100 split: option.splits)

theorem C4_cleaned_witness:
  "transformValue (INDICATORS GDP) = None
   \<and> transformValue (INDICATORS HOUSING_HPI) = None
   \<and> transformValue (INDICATORS EMP_RATE) = Some hundred_minus
   \<and> cleaned (INDICATORS GDP) example_raw = [\<lparr>date = ''2024-01-01'', val = Fin 100\<rparr>]
   \<and> cleaned (INDICATORS HOUSING_HPI) example_raw = [\<lparr>date = ''2024-01-01'', val = Fin 100\<rparr>]
   \<and> cleaned (INDICATORS EMP_RATE) example_raw = [\<lparr>date = ''2024-01-01'', val = Fin 0\<rparr>]"
proof -
  have g: "transformValue (INDICATORS GDP) = None" by simp
  have h: "transformValue (INDICATORS HOUSING_HPI) = None" by simp
  have e: "transformValue (INDICATORS EMP_RATE) = Some hundred_minus" by simp
  show ?thesis
    using g h e C4_cleaned [where ind = "INDICATORS GDP"]
      C4_cleaned [where ind = "INDICATORS HOUSING_HPI"]
      C4_cleaned [where ind = "INDICATORS EMP_RATE" and f = hundred_minus]
    by simp
qed

text \<open>
  The claim as the specification states it fails: under the employment indicator, the one
  the application starts with, the answer of the scenario is cleaned to the single record of
  2024-01-01 with value 0, not 100.
\<close>

theorem C4_counterexample:
  "indicatorKey initial_state = EMP_RATE
   \<and> cleaned (INDICATORS (indicatorKey initial_state)) example_raw
       = [\<lparr>date = ''2024-01-01'', val = Fin 0\<rparr>]
   \<and> cleaned (INDICATORS (indicatorKey initial_state)) example_raw
       \<noteq> [\<lparr>date = ''2024-01-01'', val = Fin 100\<rparr>]"
  by (simp add: initial_state_def cleaned_def clean_record_def example_raw_def Number_100)

text \<open>
  Claim C5. The unified axis is the sorted list of the set of all dates of the planned
  series in the cache, strictly ascending. It therefore depends on the plan only through
  the set of its entries: planning every series twice, or the same series in another order,
  gives the same axis. Adding an entry to the plan, also with a cache that has grown, only
  adds dates; so does selecting one more region in a state.
\<close>

theorem C5_unified_axis:
  "unifiedDates cache plan =
     sorted_list_of_set (\<Union>p \<in> set plan. date ` set (rows_of cache (seriesId p)))
   \<and> sorted_wrt (<) (unifiedDates cache plan)
   \<and> unifiedDates cache (plan @ plan) = unifiedDates cache plan
   \<and> (set plan = set plan' \<longrightarrow> unifiedDates cache plan' = unifiedDates cache plan)
   \<and> (cache \<subseteq>\<^sub>m cache' \<longrightarrow>
        set (unifiedDates cache plan) \<subseteq> set (unifiedDates cache' (plan @ [p])))
   \<and> (c \<notin> set (selectedMsas s) \<longrightarrow>
        set (unifiedDates (seriesCache s) (plannedSeries s))
          \<subseteq> set (unifiedDates (seriesCache (onToggleMsa c s)) (plannedSeries (onToggleMsa c s))))"
proof -
  have a: "unifiedDates cache (plan @ plan) = unifiedDates cache plan"
    by (simp add: unifiedDates_canonical)
  have b: "set plan = set plan' \<longrightarrow> unifiedDates cache plan' = unifiedDates cache plan"
    by (simp add: unifiedDates_canonical)
  have c: "cache \<subseteq>\<^sub>m cache' \<longrightarrow>
        set (unifiedDates cache plan) \<subseteq> set (unifiedDates cache' (plan @ [p]))"
    using rows_of_mono [of cache cache'] by (fastforce simp: unifiedDates_set)
  have d: "c \<notin> set (selectedMsas s) \<longrightarrow>
        set (unifiedDates (seriesCache s) (plannedSeries s))
          \<subseteq> set (unifiedDates (seriesCache (onToggleMsa c s)) (plannedSeries (onToggleMsa c s)))"
  proof
    assume "c \<notin> set (selectedMsas s)"
    then have "plannedSeries (onToggleMsa c s) =
                 plannedSeries s @ plannedSeries (s\<lparr>selectedMsas := [c]\<rparr>)"
      by (rule plannedSeries_toggle_on)
    moreover have "seriesCache (onToggleMsa c s) = seriesCache s"
      by (simp add: onToggleMsa_def)
    ultimately show "set (unifiedDates (seriesCache s) (plannedSeries s))
          \<subseteq> set (unifiedDates (seriesCache (onToggleMsa c s)) (plannedSeries (onToggleMsa c s)))"
      by (auto simp: unifiedDates_set)
  qed
  from a b c d show ?thesis
    using unifiedDates_canonical [of cache plan] unifiedDates_strict [of cache plan] by blast
qed

theorem C5_unified_axis_witness:
  "set [plan_a] = set [plan_a, plan_a]
   \<and> cache_a \<subseteq>\<^sub>m cache_ab
   \<and> ''36740'' \<notin> set (selectedMsas fetched_state)
   \<and> unifiedDates cache_a [plan_a, plan_a] = unifiedDates cache_a [plan_a]
   \<and> unifiedDates cache_a [plan_a] = [''2024-01-01'', ''2024-02-01'']
   \<and> unifiedDates cache_ab [plan_a, plan_b] = [''2024-01-01'', ''2024-02-01'', ''2024-03-01'']
   \<and> set (unifiedDates cache_a [plan_a]) \<subseteq> set (unifiedDates cache_ab ([plan_a] @ [plan_b]))
   \<and> set (unifiedDates (seriesCache fetched_state) (plannedSeries fetched_state))
        \<subseteq> set (unifiedDates (seriesCache (onToggleMsa ''36740'' fetched_state))
                   (plannedSeries (onToggleMsa ''36740'' fetched_state)))"
proof -
  have h1: "set [plan_a] = set [plan_a, plan_a]" by simp
  have h2: "cache_a \<subseteq>\<^sub>m cache_ab"
    by (simp add: cache_a_def cache_ab_def map_le_def)
  have h3: "''36740'' \<notin> set (selectedMsas fetched_state)"
    by (simp add: fetched_state_def run_effect_frame gdp_state_def onSelectIndicator_def
        initial_state_def)
  show ?thesis
    using h1 h2 h3 axis_a axis_ab
      C5_unified_axis [where cache = cache_a and plan = "[plan_a]" and plan' = "[plan_a, plan_a]"
        and cache' = cache_ab and p = plan_b and c = "''36740''" and s = fetched_state]
    by simp
qed

text \<open>
  Claim C6, as the code has it. Every series in the cache of a session state, also of a
  session whose runs overlap, is the cleaning of the answer that a provider of the session
  gave for its id: it is sorted by date, ascending, and it is made of exactly the records of
  that answer whose value is not the marker \<^verbatim>\<open>"."\<close>, each passed once through
  \<open>clean_record\<close>. The order need not be strict: nothing removes a repeated date, and the
  dates ascend strictly exactly when they are distinct.
\<close>

theorem C6_cache_sorted:
  assumes "session ps s" and "seriesCache s sid = Some rows"
  shows "sorted (map date rows)
         \<and> (\<exists>prov \<in> set ps. \<exists>k raws.
               observations prov sid = Ok raws
               \<and> rows = cleaned (INDICATORS k) raws
               \<and> mset rows = image_mset (clean_record (INDICATORS k))
                               (filter_mset (\<lambda>d. raw_value d \<noteq> ''.'') (mset raws))
               \<and> length rows = length (filter (\<lambda>d. raw_value d \<noteq> ''.'') raws))
         \<and> (sorted_wrt (<) (map date rows) \<longleftrightarrow> distinct (map date rows))"
proof -
  obtain prov k raws where p: "prov \<in> set ps" and a: "observations prov sid = Ok raws"
    and r: "rows = cleaned (INDICATORS k) raws"
    using session_cache_answer [OF assms] by blast
  have s: "sorted (map date rows)"
    by (simp add: r cleaned_def)
  have m: "mset rows = image_mset (clean_record (INDICATORS k))
                         (filter_mset (\<lambda>d. raw_value d \<noteq> ''.'') (mset raws))"
    by (simp add: r cleaned_def)
  have l: "length rows = length (filter (\<lambda>d. raw_value d \<noteq> ''.'') raws)"
    by (simp add: r cleaned_def)
  from s have "sorted_wrt (<) (map date rows) \<longleftrightarrow> distinct (map date rows)"
    by (simp add: strict_sorted_iff)
  with s p a r m l show ?thesis by blast
qed

theorem C6_cache_sorted_witness:
  "session [prov_sentinel] sentinel_state
   \<and> observations prov_sentinel ''RGMP33100'' = Ok sentinel_raw
   \<and> seriesCache sentinel_state ''RGMP33100'' =
       Some [\<lparr>date = ''2023-12-01'', val = Fin 5\<rparr>, \<lparr>date = ''2024-01-01'', val = Fin 100\<rparr>]
   \<and> length sentinel_raw = 3
   \<and> (\<exists>k. [\<lparr>date = ''2023-12-01'', val = Fin 5\<rparr>, \<lparr>date = ''2024-01-01'', val = Fin 100\<rparr>]
              = cleaned (INDICATORS k) sentinel_raw)
   \<and> length (filter (\<lambda>d. raw_value d \<noteq> ''.'') sentinel_raw) = 2
   \<and> sorted_wrt (<) (map date [\<lparr>date = ''2023-12-01'', val = Fin 5\<rparr>,
                                \<lparr>date = ''2024-01-01'', val = Fin 100\<rparr>])"
proof -
  have r: "session [prov_sentinel] sentinel_state"
    unfolding sentinel_state_def by (intro session.run session_gdp)
  have a: "observations prov_sentinel ''RGMP33100'' = Ok sentinel_raw"
    by (simp add: prov_sentinel_def)
  show ?thesis
    using r a sentinel_cache C6_cache_sorted [OF r sentinel_cache]
    by (auto simp: sentinel_raw_def)
qed

text \<open>
  The claim as the specification states it fails: a provider answer with two records of
  the date 2024-01-01 is cleaned into the cache with both records, so the dates of the
  cached series are not strictly ascending.
\<close>

theorem C6_counterexample:
  "session [prov_dup] dup_state
   \<and> seriesCache dup_state ''RGMP33100'' =
       Some [\<lparr>date = ''2024-01-01'', val = Fin 5\<rparr>, \<lparr>date = ''2024-01-01'', val = Fin 6\<rparr>]
   \<and> \<not> sorted_wrt (<) (map date (rows_of (seriesCache dup_state) ''RGMP33100''))
   \<and> \<not> distinct (map date (rows_of (seriesCache dup_state) ''RGMP33100''))"
proof -
  have "session [prov_dup] dup_state"
    unfolding dup_state_def by (intro session.run session_gdp)
  then show ?thesis by (simp add: dup_cache rows_of_def)
qed

text \<open>
  Claim C7. Selecting an indicator empties the series cache and the resolved-id map and
  keeps the selected regions. The plan after it takes every series id from the static
  override or the indicator's pattern, never from an id discovered before; every planned
  series is missing from the cache; and the discovery callback issues its search again for
  every planned series of an indicator that has a search text.
\<close>

theorem C7_switch_indicator:
  "seriesCache (onSelectIndicator k s) = Map.empty
   \<and> seriesIdMap (onSelectIndicator k s) = Map.empty
   \<and> indicatorKey (onSelectIndicator k s) = k
   \<and> selectedMsas (onSelectIndicator k s) = selectedMsas s
   \<and> map seriesId (plannedSeries (onSelectIndicator k s)) =
       map (\<lambda>c. or_else (SERIES_OVERRIDES (mk_key k c)) (seriesIdForCbsa (INDICATORS k) c))
         (selectedMsas s)
   \<and> missing (onSelectIndicator k s) = plannedSeries (onSelectIndicator k s)
   \<and> fst (discover prov (onSelectIndicator k s) p) =
       (case searchText (INDICATORS k) of
          None \<Rightarrow> []
        | Some text_of \<Rightarrow> [Search (text_of (msaName p))])"
  by (simp add: onSelectIndicator_def plannedSeries_def missing_def discover_def Let_def
      split: option.splits)




text \<open>
  Claim C9. A plan has one entry per selected region. With one entry the table has mode
  \<^verbatim>\<open>single\<close> and holds the rows of that one series, of which the table body shows the
  last 50, all of them when there are fewer. With two or more entries the table has mode
  \<^verbatim>\<open>multi\<close>; its dates are the last 12 of the unified axis, all of them when there are
  fewer; it has one row per such date, and the row's cell for a series is the value of the
  last row of that series with the date, and the missing marker \<open>None\<close>, which is no
  number, exactly when the series has no row with the date.
\<close>

theorem C9_table:
  "length (plannedSeries s) = length (selectedMsas s)
   \<and> (length plan = 1 \<longrightarrow>
        mode (tableData cache plan) = ''single''
        \<and> tableData cache plan = Single (rows_of cache (seriesId (hd plan))))
   \<and> length (shown_rows rows) = min 50 (length rows)
   \<and> shown_rows rows = drop (length rows - 50) rows
   \<and> (2 \<le> length plan \<longrightarrow>
        mode (tableData cache plan) = ''multi''
        \<and> tableData cache plan =
            Multi (drop (length (unifiedDates cache plan) - 12) (unifiedDates cache plan))
              (map (\<lambda>d. \<lparr>row_date = d,
                          vals = map (\<lambda>p. date_map (rows_of cache (seriesId p)) d) plan\<rparr>)
                 (drop (length (unifiedDates cache plan) - 12) (unifiedDates cache plan)))
        \<and> length (drop (length (unifiedDates cache plan) - 12) (unifiedDates cache plan))
            = min 12 (length (unifiedDates cache plan)))
   \<and> (date_map rows d = None \<longleftrightarrow> d \<notin> date ` set rows)
   \<and> date_map rows d = map_option val (find (\<lambda>r. date r = d) (rev rows))"
proof -
  have planned: "length (plannedSeries s) = length (selectedMsas s)"
    by (simp add: plannedSeries_def)
  have single: "length plan = 1 \<longrightarrow>
      mode (tableData cache plan) = ''single''
      \<and> tableData cache plan = Single (rows_of cache (seriesId (hd plan)))"
    by (simp add: tableData_def)
  have shown: "length (shown_rows rows) = min 50 (length rows)
      \<and> shown_rows rows = drop (length rows - 50) rows"
    by (auto simp: shown_rows_def slice_last_def)
  have multi: "2 \<le> length plan \<longrightarrow>
        mode (tableData cache plan) = ''multi''
        \<and> tableData cache plan =
            Multi (drop (length (unifiedDates cache plan) - 12) (unifiedDates cache plan))
              (map (\<lambda>d. \<lparr>row_date = d,
                          vals = map (\<lambda>p. date_map (rows_of cache (seriesId p)) d) plan\<rparr>)
                 (drop (length (unifiedDates cache plan) - 12) (unifiedDates cache plan)))
        \<and> length (drop (length (unifiedDates cache plan) - 12) (unifiedDates cache plan))
            = min 12 (length (unifiedDates cache plan))"
    by (auto simp: tableData_def slice_last_def Let_def pivot_vals)
  from planned single shown multi show ?thesis
    using date_map_None [of rows d] date_map_last [of rows d] by blast
qed

theorem C9_table_witness:
  "length [plan_a] = 1 \<and> 2 \<le> length [plan_a, plan_b]
   \<and> tableData cache_ab [plan_a] = Single rows_a
   \<and> shown_rows rows_a = rows_a
   \<and> length (shown_rows (replicate 51 \<lparr>date = ''2024-01-01'', val = Fin 1\<rparr>)) = 50
   \<and> tableData cache_ab [plan_a, plan_b] =
       Multi [''2024-01-01'', ''2024-02-01'', ''2024-03-01'']
         [\<lparr>row_date = ''2024-01-01'', vals = [Some (Fin 1), None]\<rparr>,
          \<lparr>row_date = ''2024-02-01'', vals = [Some (Fin 2), Some (Fin 3)]\<rparr>,
          \<lparr>row_date = ''2024-03-01'', vals = [None, Some (Fin 4)]\<rparr>]
   \<and> (\<exists>rows. tableData cache_long [plan_a, plan_b] =
          Multi [''2023-04-01'', ''2023-05-01'', ''2023-06-01'', ''2023-07-01'',
                 ''2023-08-01'', ''2023-09-01'', ''2023-10-01'', ''2023-11-01'',
                 ''2023-12-01'', ''2024-01-01'', ''2024-02-01'', ''2024-03-01''] rows
          \<and> length rows = 12)"
proof -
  have h1: "length [plan_a] = 1" by simp
  have h2: "2 \<le> length [plan_a, plan_b]" by simp
  have ra: "rows_of cache_ab (seriesId plan_a) = rows_a"
    by (simp add: rows_of_def cache_ab_def plan_a_def)
  have rb: "rows_of cache_ab (seriesId plan_b) = rows_b"
    by (simp add: rows_of_def cache_ab_def plan_b_def)
  have ma: "date_map rows_a = [''2024-01-01'' \<mapsto> Fin 1, ''2024-02-01'' \<mapsto> Fin 2]"
    by (simp add: date_map_def rows_a_def)
  have mb: "date_map rows_b = [''2024-02-01'' \<mapsto> Fin 3, ''2024-03-01'' \<mapsto> Fin 4]"
    by (simp add: date_map_def rows_b_def)
  have sa: "shown_rows rows_a = rows_a"
    using C9_table [where rows = rows_a] by (simp add: rows_a_def)
  have sb: "length (shown_rows (replicate 51 \<lparr>date = ''2024-01-01'', val = Fin 1\<rparr>)) = 50"
    using C9_table [where rows = "replicate 51 \<lparr>date = ''2024-01-01'', val = Fin 1\<rparr>"]
    by simp
  have small: "tableData cache_ab [plan_a] = Single rows_a
     \<and> tableData cache_ab [plan_a, plan_b] =
       Multi [''2024-01-01'', ''2024-02-01'', ''2024-03-01'']
         [\<lparr>row_date = ''2024-01-01'', vals = [Some (Fin 1), None]\<rparr>,
          \<lparr>row_date = ''2024-02-01'', vals = [Some (Fin 2), Some (Fin 3)]\<rparr>,
          \<lparr>row_date = ''2024-03-01'', vals = [None, Some (Fin 4)]\<rparr>]"
    using h1 h2 C9_table [where plan = "[plan_a]" and cache = cache_ab]
      C9_table [where plan = "[plan_a, plan_b]" and cache = cache_ab]
    by (simp add: axis_ab ra rb ma mb)
  have long: "\<exists>rows. tableData cache_long [plan_a, plan_b] =
          Multi [''2023-04-01'', ''2023-05-01'', ''2023-06-01'', ''2023-07-01'',
                 ''2023-08-01'', ''2023-09-01'', ''2023-10-01'', ''2023-11-01'',
                 ''2023-12-01'', ''2024-01-01'', ''2024-02-01'', ''2024-03-01''] rows
          \<and> length rows = 12"
    using h2 C9_table [where plan = "[plan_a, plan_b]" and cache = cache_long]
    by (simp add: axis_long)
  from h1 h2 sa sb small long show ?thesis by blast
qed

text \<open>
  Claim C10. For a non-empty candidate list and a region code of digits (for which the
  regular expression built from the code is the code itself), the housing pick function
  returns the id of the first candidate that passes the filter and whose id contains the
  region code; if there is none, the id of the first candidate that passes the filter; if
  there is none either, the id of the first candidate. It always returns an id.
\<close>

theorem C10_pick_housing:
  assumes "items \<noteq> []" and "list_all is_digit (ctx_cbsa c)"
  shows "pickSeries_HOUSING_HPI items c =
           Some (id' (case find (\<lambda>s. is_listing_count s \<and> test_substr (ctx_cbsa c) (id' s)) items of
                        Some s \<Rightarrow> s
                      | None \<Rightarrow>
                          (case find is_listing_count items of
                             Some s \<Rightarrow> s
                           | None \<Rightarrow> hd items)))"
proof -
  obtain x xs where items: "items = x # xs"
    using assms(1) by (cases items) auto
  have "first items = Some (hd items)"
    by (simp add: items)
  then show ?thesis
    by (simp add: pickSeries_HOUSING_HPI_def find_filter first_filter split: option.splits)
qed

theorem C10_pick_housing_witness:
  "cands \<noteq> []
   \<and> list_all is_digit (ctx_cbsa \<lparr>ctx_cbsa = ''33100'', ctx_msaName = ''Miami''\<rparr>)
   \<and> pickSeries_HOUSING_HPI cands \<lparr>ctx_cbsa = ''33100'', ctx_msaName = ''Miami''\<rparr>
       = Some ''ACTLISCOU33100''
   \<and> pickSeries_HOUSING_HPI cands \<lparr>ctx_cbsa = ''12060'', ctx_msaName = ''Atlanta''\<rparr>
       = Some ''actliscou45300''
   \<and> pickSeries_HOUSING_HPI cands_other \<lparr>ctx_cbsa = ''12060'', ctx_msaName = ''Atlanta''\<rparr>
       = Some ''MEDLISPRI33100''"
proof -
  have h1: "cands \<noteq> []" by (simp add: cands_def)
  have d1: "list_all is_digit (ctx_cbsa \<lparr>ctx_cbsa = ''33100'', ctx_msaName = ''Miami''\<rparr>)"
    by (simp add: is_digit_def)
  have d2: "list_all is_digit (ctx_cbsa \<lparr>ctx_cbsa = ''12060'', ctx_msaName = ''Atlanta''\<rparr>)"
    by (simp add: is_digit_def)
  have h3: "cands_other \<noteq> []" by (simp add: cands_other_def)
  show ?thesis
    using h1 d1 C10_pick_housing [OF h1 d1] C10_pick_housing [OF h1 d2]
      C10_pick_housing [OF h3 d2]
    by (simp add: cands_33100 cands_12060 cands_first)
qed

end
